theory Spec2Isabelle
  imports Main "HOL-Library.Sublist"
begin

section \<open>Bytes, strings and the library functions the archive reader calls\<close>

text \<open>
  The Go source \<^verbatim>\<open>deb/ar.go\<close> works on byte slices and on strings, which in Go are
  byte sequences as well. Both are modelled as \<^typ>\<open>string\<close>, a list of 8-bit
  \<^typ>\<open>char\<close>; the conversions \<^verbatim>\<open>string(b)\<close> and \<^verbatim>\<open>[]byte(s)\<close> are the identity.
  A slice expression \<^verbatim>\<open>line[lo:hi]\<close> is only evaluated by the source on a buffer
  of 60 bytes, where it cannot panic.
\<close>

definition slice :: "nat \<Rightarrow> nat \<Rightarrow> string \<Rightarrow> string" where
  "slice lo hi line = take (hi - lo) (drop lo line)"

text \<open>
  \<^verbatim>\<open>strings.TrimSpace\<close> removes leading and trailing white space as Unicode defines
  it (\<^verbatim>\<open>unicode.IsSpace\<close>), reading the string as UTF-8. The white-space code points
  are U+0009 to U+000D, U+0020, U+0085, U+00A0, U+1680, U+2000 to U+200A, U+2028, U+2029,
  U+202F, U+205F and U+3000. Go's decoder accepts only the shortest encoding of a code
  point, so a string starts (ends) with a white-space rune exactly when one of the byte
  sequences below is a prefix (suffix) of it; any other byte, valid UTF-8 or not, stops
  the trimming.
\<close>

definition spaceRunes :: "string list" where
  "spaceRunes =
     [[CHR 0x09], [CHR 0x0A], [CHR 0x0B], [CHR 0x0C], [CHR 0x0D], [CHR 0x20],
      [CHR 0xC2, CHR 0x85], [CHR 0xC2, CHR 0xA0],
      [CHR 0xE1, CHR 0x9A, CHR 0x80],
      [CHR 0xE2, CHR 0x80, CHR 0x80], [CHR 0xE2, CHR 0x80, CHR 0x81],
      [CHR 0xE2, CHR 0x80, CHR 0x82], [CHR 0xE2, CHR 0x80, CHR 0x83],
      [CHR 0xE2, CHR 0x80, CHR 0x84], [CHR 0xE2, CHR 0x80, CHR 0x85],
      [CHR 0xE2, CHR 0x80, CHR 0x86], [CHR 0xE2, CHR 0x80, CHR 0x87],
      [CHR 0xE2, CHR 0x80, CHR 0x88], [CHR 0xE2, CHR 0x80, CHR 0x89],
      [CHR 0xE2, CHR 0x80, CHR 0x8A],
      [CHR 0xE2, CHR 0x80, CHR 0xA8], [CHR 0xE2, CHR 0x80, CHR 0xA9],
      [CHR 0xE2, CHR 0x80, CHR 0xAF], [CHR 0xE2, CHR 0x81, CHR 0x9F],
      [CHR 0xE3, CHR 0x80, CHR 0x80]]"

text \<open>
  \<open>runeWidth rs s\<close> is the length of the first sequence of \<open>rs\<close> that \<open>s\<close> starts
  with, and 0 when there is none; \<open>trimRunes rs s\<close> drops such sequences from the front
  of \<open>s\<close> until none is left, as the loop of \<^verbatim>\<open>TrimLeftFunc\<close> does rune by rune.
\<close>

definition runeWidth :: "string list \<Rightarrow> string \<Rightarrow> nat" where
  "runeWidth rs s = (case find (\<lambda>r. r \<noteq> [] \<and> prefix r s) rs of None \<Rightarrow> 0 | Some r \<Rightarrow> length r)"

function trimRunes :: "string list \<Rightarrow> string \<Rightarrow> string" where
  "trimRunes rs s = (if runeWidth rs s = 0 then s else trimRunes rs (drop (runeWidth rs s) s))"
  by pat_completeness auto
termination
proof (relation "measure (\<lambda>(rs, s). length s)")
  show "wf (measure (\<lambda>(rs, s). length s))" by simp
next
  fix rs :: "string list" and s :: string
  assume w: "runeWidth rs s \<noteq> 0"
  then obtain r where f: "find (\<lambda>r. r \<noteq> [] \<and> prefix r s) rs = Some r"
    by (auto simp: runeWidth_def split: option.splits)
  then have "r \<noteq> [] \<and> prefix r s"
    by (auto simp: find_Some_iff)
  then have "s \<noteq> []" by auto
  with w show "((rs, drop (runeWidth rs s) s), (rs, s)) \<in> measure (\<lambda>(rs, s). length s)"
    by simp
qed

declare trimRunes.simps [simp del]

definition TrimLeftSpace :: "string \<Rightarrow> string" where
  "TrimLeftSpace s = trimRunes spaceRunes s"

text \<open>Trimming on the right is trimming the reversed string by the reversed sequences.\<close>

definition TrimRightSpace :: "string \<Rightarrow> string" where
  "TrimRightSpace s = rev (trimRunes (map rev spaceRunes) (rev s))"

definition TrimSpace :: "string \<Rightarrow> string" where
  "TrimSpace s = TrimRightSpace (TrimLeftSpace s)"

text \<open>\<^verbatim>\<open>strings.TrimSuffix(s, suffix)\<close>: \<open>s\<close> without the suffix when it ends with it.\<close>

definition TrimSuffix :: "string \<Rightarrow> string \<Rightarrow> string" where
  "TrimSuffix s suf = (if suffix suf s then take (length s - length suf) s else s)"

section \<open>Decimal parsing: \<^verbatim>\<open>strconv.Atoi\<close> and \<^verbatim>\<open>toDecimal\<close>\<close>

text \<open>
  \<^verbatim>\<open>strconv.Atoi\<close> fails with a \<^verbatim>\<open>*NumError\<close> whose cause is \<^verbatim>\<open>ErrSyntax\<close> or
  \<^verbatim>\<open>ErrRange\<close>. Go's \<^verbatim>\<open>int\<close> is taken to be 64 bits wide (as on every 64-bit
  platform), so the conversion \<^verbatim>\<open>int64(out)\<close> of \<^verbatim>\<open>toDecimal\<close> changes nothing.
\<close>

datatype num_error = ErrSyntax | ErrRange

definition isDigit :: "char \<Rightarrow> bool" where
  "isDigit ch = (48 \<le> (of_char ch :: int) \<and> (of_char ch :: int) \<le> 57)"

definition digitVal :: "char \<Rightarrow> int" where
  "digitVal ch = of_char ch - 48"

text \<open>
  The fast path of \<^verbatim>\<open>Atoi\<close>, taken for strings of 1 to 18 bytes: after an optional
  sign, the loop \<^verbatim>\<open>n = n*10 + int(ch)\<close> over the bytes, a syntax error at the first
  byte that is not a digit.
\<close>

fun atoiLoop :: "string \<Rightarrow> int \<Rightarrow> int option" where
  "atoiLoop [] n = Some n"
| "atoiLoop (ch # s) n = (if isDigit ch then atoiLoop s (n * 10 + digitVal ch) else None)"

text \<open>
  The slow path, \<^verbatim>\<open>ParseInt(s, 10, 0)\<close>: \<^verbatim>\<open>ParseUint\<close> reads the digits into an
  unsigned 64-bit number and reports a range error as soon as it overflows; the signed
  range is checked afterwards.
\<close>

fun parseUintLoop :: "string \<Rightarrow> int \<Rightarrow> num_error + int" where
  "parseUintLoop [] n = Inr n"
| "parseUintLoop (c # s) n =
     (if \<not> isDigit c then Inl ErrSyntax
      else if 2 ^ 64 div 10 + 1 \<le> n then Inl ErrRange
      else if 2 ^ 64 - 1 < n * 10 + digitVal c then Inl ErrRange
      else parseUintLoop s (n * 10 + digitVal c))"

definition ParseUint :: "string \<Rightarrow> num_error + int" where
  "ParseUint s = (if s = [] then Inl ErrSyntax else parseUintLoop s 0)"

definition ParseInt :: "string \<Rightarrow> num_error + int" where
  "ParseInt s =
     (if s = [] then Inl ErrSyntax
      else
        let neg = (hd s = CHR ''-'');
            s1 = (if hd s = CHR ''+'' \<or> hd s = CHR ''-'' then tl s else s)
        in case ParseUint s1 of
             Inl ErrSyntax \<Rightarrow> Inl ErrSyntax
           | Inl ErrRange \<Rightarrow> Inl ErrRange
           | Inr un \<Rightarrow>
               if \<not> neg \<and> 2 ^ 63 \<le> un then Inl ErrRange
               else if neg \<and> 2 ^ 63 < un then Inl ErrRange
               else Inr (if neg then - un else un))"

definition Atoi :: "string \<Rightarrow> num_error + int" where
  "Atoi s =
     (if 0 < length s \<and> length s < 19 then
        let s1 = (if hd s = CHR ''-'' \<or> hd s = CHR ''+'' then tl s else s)
        in if s1 = [] then Inl ErrSyntax
           else case atoiLoop s1 0 of
                  None \<Rightarrow> Inl ErrSyntax
                | Some n \<Rightarrow> Inr (if hd s = CHR ''-'' then - n else n)
      else ParseInt s)"

definition toDecimal :: "string \<Rightarrow> num_error + int" where
  "toDecimal input = Atoi input"

section \<open>Errors, the byte source and the archive entry\<close>

text \<open>
  Go errors are values. \<open>EOF\<close> is \<^verbatim>\<open>io.EOF\<close>; \<open>ReadError\<close> stands for any other
  error a byte source returns; \<open>Errorf\<close> is an error made by \<^verbatim>\<open>fmt.Errorf\<close> from a
  fixed message; \<open>FailedToParseEntry name cause\<close> is
  \<^verbatim>\<open>fmt.Errorf("failed to parse entry %s: %w", name, err)\<close>.
\<close>

datatype error =
    EOF
  | ReadError string
  | Errorf string
  | FailedToParseEntry string num_error

text \<open>
  The specification sorts the outcomes into format errors, errors of the byte source and
  the end of the archive. In the source the format errors are the ones this package makes
  itself with \<^verbatim>\<open>fmt.Errorf\<close>, and the end of the archive is the value \<^verbatim>\<open>io.EOF\<close>.
\<close>

fun FormatError :: "error \<Rightarrow> bool" where
  "FormatError (Errorf msg) = True"
| "FormatError (FailedToParseEntry name cause) = True"
| "FormatError EOF = False"
| "FormatError (ReadError msg) = False"

definition EndOfArchive :: "error \<Rightarrow> bool" where
  "EndOfArchive e = (e = EOF)"

text \<open>
  The byte source is an \<^verbatim>\<open>io.ReaderAt\<close>. A source \<open>r\<close> is modelled by what a call
  \<^verbatim>\<open>ReadAt(p, off)\<close> with \<^verbatim>\<open>len(p) = len\<close> does: \<open>r len off = (bs, err)\<close>, the bytes
  it stores at the front of \<open>p\<close> and the error it returns. \<open>ReadAt\<close> gives the buffer
  after the call (a fresh buffer of \<open>len\<close> zero bytes, as \<^verbatim>\<open>make\<close> returns it, with
  the bytes read at its front), the count \<open>n\<close> with \<open>0 \<le> n \<le> len\<close>, and the error.
\<close>

type_synonym reader = "nat \<Rightarrow> int \<Rightarrow> string \<times> error option"

definition ReadAt :: "reader \<Rightarrow> nat \<Rightarrow> int \<Rightarrow> string \<times> nat \<times> error option" where
  "ReadAt r len off =
     (case r len off of
        (bs, err) \<Rightarrow>
          (take len bs @ replicate (len - length bs) (CHR 0x00), min (length bs) len, err))"

text \<open>
  The in-memory byte source of Go's standard library, \<^verbatim>\<open>bytes.Reader\<close>, over the bytes
  \<open>s\<close>: a read that ends before the buffer is full returns \<^verbatim>\<open>io.EOF\<close> with the bytes
  it could read, as the contract of \<^verbatim>\<open>io.ReaderAt\<close> demands of every source (a file
  behaves the same way).
\<close>

definition bytes_Reader :: "string \<Rightarrow> reader" where
  "bytes_Reader s len off =
     (if off < 0 then ([], Some (ReadError ''bytes.Reader.ReadAt: negative offset''))
      else if int (length s) \<le> off then ([], Some EOF)
      else
        let bs = take len (drop (nat off) s)
        in (bs, if length bs < len then Some EOF else None))"


text \<open>
  \<^verbatim>\<open>io.NewSectionReader(r, off, n)\<close>: the reader of a member's data, given by the
  source, the offset of the first byte and the number of bytes.
\<close>

record SectionReader =
  sec_r :: reader
  sec_off :: int
  sec_n :: int

record ArEntry =
  Name :: string
  Timestamp :: int
  OwnerID :: int
  GroupID :: int
  FileMode :: string
  Size :: int
  Data :: "SectionReader option"

record Ar =
  inp :: reader
  offset :: int

text \<open>
  The fields \<open>offset\<close>, \<open>Size\<close> and the other numbers are \<^verbatim>\<open>int64\<close>: \<open>int64 x\<close>
  is the value a 64-bit signed integer holds after a computation whose exact result is
  \<open>x\<close>, and \<open>rem\<close> is Go's \<^verbatim>\<open>%\<close>, whose result has the sign of the dividend.
\<close>

definition int64 :: "int \<Rightarrow> int" where
  "int64 x = (x + 2 ^ 63) mod 2 ^ 64 - 2 ^ 63"

definition rem :: "int \<Rightarrow> int \<Rightarrow> int" where
  "rem a b = sgn a * (\<bar>a\<bar> mod \<bar>b\<bar>)"

section \<open>The header decoder: \<^verbatim>\<open>parseArEntry\<close>\<close>

text \<open>
  The keys of the map literal that \<^verbatim>\<open>parseArEntry\<close> ranges over: each is an
  \<^verbatim>\<open>entryField\<close> with a name and a pointer to a field of the entry. \<open>fieldName\<close> is the
  key's \<^verbatim>\<open>Name\<close>, \<open>fieldBytes line\<close> is the map (key to slice of the header), and
  \<open>setField\<close> is the assignment \<^verbatim>\<open>*target.Pointer = intValue\<close>.
\<close>

datatype entryField = TimestampField | OwnerIDField | GroupIDField | SizeField

fun fieldName :: "entryField \<Rightarrow> string" where
  "fieldName TimestampField = ''Timestamp''"
| "fieldName OwnerIDField = ''OwnerID''"
| "fieldName GroupIDField = ''GroupID''"
| "fieldName SizeField = ''Size''"

fun fieldBytes :: "string \<Rightarrow> entryField \<Rightarrow> string" where
  "fieldBytes line TimestampField = slice 16 28 line"
| "fieldBytes line OwnerIDField = slice 28 34 line"
| "fieldBytes line GroupIDField = slice 34 40 line"
| "fieldBytes line SizeField = slice 48 58 line"

fun setField :: "entryField \<Rightarrow> int \<Rightarrow> ArEntry \<Rightarrow> ArEntry" where
  "setField TimestampField v entry = entry\<lparr>Timestamp := v\<rparr>"
| "setField OwnerIDField v entry = entry\<lparr>OwnerID := v\<rparr>"
| "setField GroupIDField v entry = entry\<lparr>GroupID := v\<rparr>"
| "setField SizeField v entry = entry\<lparr>Size := v\<rparr>"

fun getField :: "entryField \<Rightarrow> ArEntry \<Rightarrow> int" where
  "getField TimestampField entry = Timestamp entry"
| "getField OwnerIDField entry = OwnerID entry"
| "getField GroupIDField entry = GroupID entry"
| "getField SizeField entry = Size entry"

text \<open>
  Go does not fix the order in which \<^verbatim>\<open>range\<close> visits the keys of a map: it may differ
  from run to run. The order is a parameter \<open>ord\<close> of the model: any list of keys, read
  as the order \<open>rangeOrder ord\<close>, in which every key occurs exactly once (the keys of
  the source text followed by \<open>ord\<close>, each key kept where it occurs last). A list
  \<open>ord\<close> of the four keys, each once, is its own order, so every order of the keys is
  \<open>rangeOrder ord\<close> for some \<open>ord\<close>; the empty list gives the order of the source text.
\<close>

definition rangeOrder :: "entryField list \<Rightarrow> entryField list" where
  "rangeOrder ord = remdups ([TimestampField, OwnerIDField, GroupIDField, SizeField] @ ord)"

text \<open>The body of the \<^verbatim>\<open>for ... range\<close> loop, over the keys still to be visited.\<close>

fun parseFields :: "string \<Rightarrow> entryField list \<Rightarrow> ArEntry \<Rightarrow> error + ArEntry" where
  "parseFields line [] entry = Inr entry"
| "parseFields line (target # rest) entry =
     (let input = TrimSpace (fieldBytes line target)
      in if input = [] then parseFields line rest entry
         else case toDecimal input of
                Inl err \<Rightarrow> Inl (FailedToParseEntry (fieldName target) err)
              | Inr intValue \<Rightarrow> parseFields line rest (setField target intValue entry))"

definition parseArEntry :: "entryField list \<Rightarrow> string \<Rightarrow> error + ArEntry" where
  "parseArEntry ord line =
     (if length line \<noteq> 60 then Inl (Errorf ''Malformed file entry line length'')
      else if line ! 58 \<noteq> CHR 0x60 \<and> line ! 59 \<noteq> CHR 0x0A
        then Inl (Errorf ''Malformed file entry line endings'')
      else parseFields line (rangeOrder ord)
             \<lparr>Name = TrimSuffix (TrimSpace (slice 0 16 line)) ''/'',
              Timestamp = 0, OwnerID = 0, GroupID = 0,
              FileMode = TrimSpace (slice 40 48 line),
              Size = 0, Data = None\<rparr>)"

section \<open>The archive: \<^verbatim>\<open>checkAr\<close>, \<^verbatim>\<open>LoadAr\<close> and \<^verbatim>\<open>Next\<close>\<close>

definition checkAr :: "reader \<Rightarrow> error + int" where
  "checkAr r =
     (case ReadAt r 8 0 of
        (header, count, err) \<Rightarrow>
          (case err of
             Some e \<Rightarrow> Inl e
           | None \<Rightarrow>
               if header \<noteq> ''!<arch>'' @ [CHR 0x0A] then Inl (Errorf ''Header doesn't look right!'')
               else Inr (int (length header))))"

definition LoadAr :: "reader \<Rightarrow> error + Ar" where
  "LoadAr r =
     (case checkAr r of
        Inl err \<Rightarrow> Inl err
      | Inr off \<Rightarrow> Inr \<lparr>inp = r, offset = off\<rparr>)"

text \<open>
  \<^verbatim>\<open>Next\<close> changes the archive it is called on: the model returns the result together
  with the archive after the call.
\<close>

definition Next :: "entryField list \<Rightarrow> Ar \<Rightarrow> (error + ArEntry) \<times> Ar" where
  "Next ord d =
     (case ReadAt (inp d) 60 (offset d) of
        (line, count, err) \<Rightarrow>
          (case err of
             Some e \<Rightarrow> (Inl e, d)
           | None \<Rightarrow>
               if count = 1 \<and> line ! 0 = CHR 0x0A then (Inl EOF, d)
               else if count \<noteq> 60 then (Inl (Errorf ''Caught a short read at the end''), d)
               else
                 (case parseArEntry ord line of
                    Inl e \<Rightarrow> (Inl e, d)
                  | Inr entry \<Rightarrow>
                      (Inr (entry\<lparr>Data := Some \<lparr>sec_r = inp d,
                                                 sec_off = int64 (offset d + int count),
                                                 sec_n = Size entry\<rparr>\<rparr>),
                       d\<lparr>offset := int64 (offset d + (int count + Size entry + rem (Size entry) 2))\<rparr>))))"

section \<open>Notions used to state the properties\<close>

text \<open>
  For a header \<open>line\<close> and a key \<open>target\<close> of the loop: \<open>fieldInput\<close> is the loop's
  variable \<^verbatim>\<open>input\<close>, the trimmed bytes of the field; \<open>fieldFails\<close> says that the field is
  not blank and does not parse; \<open>fieldValue\<close> is the number a field that does not fail
  stands for, 0 when it is blank.
\<close>

definition fieldInput :: "string \<Rightarrow> entryField \<Rightarrow> string" where
  "fieldInput line target = TrimSpace (fieldBytes line target)"

definition fieldFails :: "string \<Rightarrow> entryField \<Rightarrow> bool" where
  "fieldFails line target =
     (fieldInput line target \<noteq> [] \<and> isl (toDecimal (fieldInput line target)))"

definition fieldValue :: "string \<Rightarrow> entryField \<Rightarrow> int" where
  "fieldValue line target =
     (if fieldInput line target = [] then 0
      else case toDecimal (fieldInput line target) of Inl err \<Rightarrow> 0 | Inr v \<Rightarrow> v)"

text \<open>
  The entry a header decodes to when none of its numeric fields fails: the value
  \<^verbatim>\<open>parseArEntry\<close> returns, whatever the order of the loop (lemma \<open>parseArEntry_ok\<close>).
\<close>

definition decoded :: "string \<Rightarrow> ArEntry" where
  "decoded line =
     \<lparr>Name = TrimSuffix (TrimSpace (slice 0 16 line)) ''/'',
      Timestamp = fieldValue line TimestampField,
      OwnerID = fieldValue line OwnerIDField,
      GroupID = fieldValue line GroupIDField,
      FileMode = TrimSpace (slice 40 48 line),
      Size = fieldValue line SizeField, Data = None\<rparr>"

text \<open>
  White space as the specification speaks of it, stated without the trimming functions:
  \<open>concatOf rs s\<close> holds when \<open>s\<close> is a concatenation of sequences of \<open>rs\<close>, and a
  string is white space when it is a concatenation of encoded white-space runes.
\<close>

inductive concatOf :: "string list \<Rightarrow> string \<Rightarrow> bool" where
  concatOf_Nil: "concatOf rs []"
| concatOf_App: "r \<in> set rs \<Longrightarrow> concatOf rs s \<Longrightarrow> concatOf rs (r @ s)"

definition whiteSpace :: "string \<Rightarrow> bool" where
  "whiteSpace s = concatOf spaceRunes s"

text \<open>The values a 64-bit signed integer can hold.\<close>

definition fitsInt64 :: "int \<Rightarrow> bool" where
  "fitsInt64 x = (- (2 ^ 63) \<le> x \<and> x < 2 ^ 63)"

section \<open>Concrete headers and archives\<close>

text \<open>
  The archive magic, and 60-byte headers written out field by field: name (16 bytes),
  timestamp (12), owner (6), group (6), mode (8), size (10), terminator (2).
\<close>

definition arMagic :: string where
  "arMagic = ''!<arch>'' @ [CHR 0x0A]"

definition fooFields :: string where
  "fooFields = ''foo/            1700000000  0     0     100644  3         ''"

definition fooHeader :: string where
  "fooHeader = fooFields @ [CHR 0x60, CHR 0x0A]"

definition bazHeader :: string where
  "bazHeader = ''baz             1700000000  0     0     100644  0         '' @ [CHR 0x60, CHR 0x0A]"

text \<open>The round-trip archive of the specification, without and with a trailing blank line.\<close>

definition fooBazArchive :: string where
  "fooBazArchive = arMagic @ fooHeader @ ''bar'' @ [CHR 0x0A] @ bazHeader"


text \<open>Headers whose terminator has one wrong byte: the second, then the first.\<close>

definition laxHeader1 :: string where
  "laxHeader1 = fooFields @ [CHR 0x60, CHR 0x20]"

definition laxHeader2 :: string where
  "laxHeader2 = fooFields @ [CHR 0x20, CHR 0x0A]"

text \<open>An archive cut off 40 bytes into its first header.\<close>

definition truncatedArchive :: string where
  "truncatedArchive = arMagic @ ''foo/            1700000000  0     0     ''"

text \<open>A header whose size field reads \<open>-101\<close>, and an archive that starts with it.\<close>

definition negHeader :: string where
  "negHeader = ''foo/            1700000000  0     0     100644  -101      '' @ [CHR 0x60, CHR 0x0A]"

definition negArchive :: string where
  "negArchive = arMagic @ negHeader"

text \<open>A header with two malformed numbers: timestamp \<open>x\<close> and size \<open>y\<close>.\<close>

definition badHeader :: string where
  "badHeader = ''foo/            x           0     0     100644  y         '' @ [CHR 0x60, CHR 0x0A]"

text \<open>A header whose numeric fields are all blank.\<close>

definition blankHeader :: string where
  "blankHeader = ''foo/                                    100644            '' @ [CHR 0x60, CHR 0x0A]"

text \<open>A header whose name field is \<open>debian-binary/\<close>, padded with spaces.\<close>

definition debHeader :: string where
  "debHeader = ''debian-binary/  1700000000  0     0     100644  4         '' @ [CHR 0x60, CHR 0x0A]"

text \<open>A source of four bytes: the start of the magic and nothing more.\<close>

definition shortSource :: string where
  "shortSource = ''!<ar''"

text \<open>
  A byte source that stores the same 60 bytes whatever the offset: enough to reach any
  offset an \<^verbatim>\<open>int64\<close> can hold.
\<close>

definition constReader :: "string \<Rightarrow> reader" where
  "constReader bs len off = (take len bs, None)"

section \<open>The header decoder, whatever the order of the loop\<close>


lemma rangeOrder_set: "f \<in> set (rangeOrder ord)"
  by (cases f) (simp_all add: rangeOrder_def)

lemma getField_setField:
  "getField f (setField g v e) = (if f = g then v else getField f e)"
  by (cases f; cases g) simp_all

lemma setField_frame:
  "Name (setField g v e) = Name e" "FileMode (setField g v e) = FileMode e"
  "Data (setField g v e) = Data e"
  by (cases g; simp)+

lemma parseFields_Inr:
  "parseFields line fs e = Inr e' \<Longrightarrow>
     Name e' = Name e \<and> FileMode e' = FileMode e \<and> Data e' = Data e \<and>
     (\<forall>f. getField f e' = (if f \<in> set fs \<and> fieldInput line f \<noteq> [] then fieldValue line f else getField f e)) \<and>
     (\<forall>f \<in> set fs. \<not> fieldFails line f)"
proof (induction fs arbitrary: e)
  case Nil
  then show ?case by simp
next
  case (Cons g fs)
  show ?case
  proof (cases "fieldInput line g = []")
    case True
    with Cons.prems have "parseFields line fs e = Inr e'"
      by (simp add: fieldInput_def)
    from Cons.IH [OF this] True show ?thesis
      by (auto simp: fieldFails_def)
  next
    case False
    with Cons.prems obtain v where v: "toDecimal (fieldInput line g) = Inr v"
      and r: "parseFields line fs (setField g v e) = Inr e'"
      by (auto simp: fieldInput_def Let_def split: sum.splits)
    from v False have fv: "fieldValue line g = v" and nf: "\<not> fieldFails line g"
      by (simp_all add: fieldValue_def fieldFails_def)
    from Cons.IH [OF r] fv nf False show ?thesis
      by (auto simp: getField_setField setField_frame)
  qed
qed

lemma parseFields_Inl:
  "parseFields line fs e = Inl err \<Longrightarrow>
     \<exists>f \<in> set fs. fieldFails line f \<and>
        err = FailedToParseEntry (fieldName f) (projl (toDecimal (fieldInput line f)))"
proof (induction fs arbitrary: e)
  case Nil
  then show ?case by simp
next
  case (Cons g fs)
  show ?case
  proof (cases "fieldInput line g = []")
    case True
    with Cons.prems have "parseFields line fs e = Inl err"
      by (simp add: fieldInput_def)
    from Cons.IH [OF this] show ?thesis by auto
  next
    case False
    show ?thesis
    proof (cases "toDecimal (fieldInput line g)")
      case (Inl c)
      with False Cons.prems show ?thesis
        by (auto simp: fieldInput_def fieldFails_def)
    next
      case (Inr v)
      with False Cons.prems have "parseFields line fs (setField g v e) = Inl err"
        by (simp add: fieldInput_def)
      from Cons.IH [OF this] show ?thesis by auto
    qed
  qed
qed


lemma parseArEntry_Inr:
  assumes "parseArEntry ord line = Inr e"
  shows "length line = 60" and "line ! 58 = CHR 0x60 \<or> line ! 59 = CHR 0x0A"
    and "\<not> fieldFails line f" and "e = decoded line"
proof -
  let ?e0 = "\<lparr>Name = TrimSuffix (TrimSpace (slice 0 16 line)) ''/'',
              Timestamp = 0, OwnerID = 0, GroupID = 0,
              FileMode = TrimSpace (slice 40 48 line),
              Size = 0, Data = None\<rparr>"
  from assms show len: "length line = 60"
    by (auto simp: parseArEntry_def split: if_splits)
  from assms show tm: "line ! 58 = CHR 0x60 \<or> line ! 59 = CHR 0x0A"
    by (auto simp: parseArEntry_def split: if_splits)
  from assms len tm have pf: "parseFields line (rangeOrder ord) ?e0 = Inr e"
    by (auto simp: parseArEntry_def split: if_splits)
  note P = parseFields_Inr [OF pf]
  from P rangeOrder_set show "\<not> fieldFails line f" by blast
  have g: "getField f e = fieldValue line f" for f
    using P rangeOrder_set [of f ord] by (cases f) (auto simp: fieldValue_def)
  from g [of TimestampField] g [of OwnerIDField] g [of GroupIDField] g [of SizeField] P
  show "e = decoded line"
    by (cases e) (simp add: decoded_def)
qed

lemma parseArEntry_ok:
  assumes "length line = 60" and "line ! 58 = CHR 0x60 \<or> line ! 59 = CHR 0x0A"
    and "\<And>f. \<not> fieldFails line f"
  shows "parseArEntry ord line = Inr (decoded line)"
proof (cases "parseArEntry ord line")
  case (Inr e)
  with parseArEntry_Inr(4) [OF Inr] show ?thesis by simp
next
  case (Inl err)
  with assms(1,2) have "\<exists>e0. parseFields line (rangeOrder ord) e0 = Inl err"
    by (auto simp: parseArEntry_def split: if_splits)
  then obtain e0 where "parseFields line (rangeOrder ord) e0 = Inl err" ..
  from parseFields_Inl [OF this] assms(3) show ?thesis by blast
qed

lemma parseArEntry_Inl:
  assumes "parseArEntry ord line = Inl err"
  shows "err = Errorf ''Malformed file entry line length'' \<and> length line \<noteq> 60
       \<or> err = Errorf ''Malformed file entry line endings'' \<and> length line = 60 \<and>
           line ! 58 \<noteq> CHR 0x60 \<and> line ! 59 \<noteq> CHR 0x0A
       \<or> (\<exists>f. fieldFails line f \<and>
             err = FailedToParseEntry (fieldName f) (projl (toDecimal (fieldInput line f))))"
proof (cases "length line \<noteq> 60 \<or> (line ! 58 \<noteq> CHR 0x60 \<and> line ! 59 \<noteq> CHR 0x0A)")
  case True
  with assms show ?thesis by (auto simp: parseArEntry_def split: if_splits)
next
  case False
  with assms have "\<exists>e0. parseFields line (rangeOrder ord) e0 = Inl err"
    by (auto simp: parseArEntry_def split: if_splits)
  then obtain e0 where "parseFields line (rangeOrder ord) e0 = Inl err" ..
  from parseFields_Inl [OF this] show ?thesis by blast
qed

lemma Next_Inr:
  assumes "Next ord d = (Inr m, d')"
  shows "\<exists>line e. ReadAt (inp d) 60 (offset d) = (line, 60, None) \<and>
           parseArEntry ord line = Inr e \<and>
           m = e\<lparr>Data := Some \<lparr>sec_r = inp d, sec_off = int64 (offset d + 60), sec_n = Size e\<rparr>\<rparr> \<and>
           d' = d\<lparr>offset := int64 (offset d + (60 + Size e + rem (Size e) 2))\<rparr>"
  using assms
  by (auto simp: Next_def split: prod.splits option.splits if_splits sum.splits)

lemma Next_Inl: "Next ord d = (Inl err, d') \<Longrightarrow> d' = d"
  by (auto simp: Next_def split: prod.splits option.splits if_splits sum.splits)

lemma int64_id: "fitsInt64 x \<Longrightarrow> int64 x = x"
  by (simp add: fitsInt64_def int64_def)

section \<open>Arithmetic of the offset\<close>

lemma rem_2_cases: "rem s 2 = (if 0 \<le> s then s mod 2 else - (- s mod 2))"
  by (simp add: rem_def sgn_if)

lemma advance_nonneg: "- 60 \<le> s \<Longrightarrow> 0 \<le> 60 + s + rem s 2"
proof (cases "s = - 60")
  case True
  then show ?thesis by (simp add: rem_2_cases)
next
  case False
  assume "- 60 \<le> s"
  with False have "- 59 \<le> s" by simp
  moreover have "- 1 \<le> rem s 2" by (simp add: rem_2_cases) presburger
  ultimately show ?thesis by simp
qed

section \<open>What the concrete headers decode to\<close>

lemma fooHeader_shape:
  "length fooHeader = 60"
  "fooHeader ! 58 = CHR 0x60"
  by code_simp+

lemma fooHeader_fields:
  "\<not> fieldFails fooHeader TimestampField" "\<not> fieldFails fooHeader OwnerIDField"
  "\<not> fieldFails fooHeader GroupIDField" "\<not> fieldFails fooHeader SizeField"
  by code_simp+

lemma fooHeader_values:
  "TrimSuffix (TrimSpace (slice 0 16 fooHeader)) ''/'' = ''foo''"
  "TrimSpace (slice 40 48 fooHeader) = ''100644''"
  "fieldValue fooHeader TimestampField = 1700000000"
  "fieldValue fooHeader OwnerIDField = 0"
  "fieldValue fooHeader GroupIDField = 0"
  "fieldValue fooHeader SizeField = 3"
  by code_simp+

lemma fooHeader_decodes:
  "parseArEntry ord fooHeader =
     Inr \<lparr>Name = ''foo'', Timestamp = 1700000000, OwnerID = 0, GroupID = 0,
          FileMode = ''100644'', Size = 3, Data = None\<rparr>"
proof -
  have "\<not> fieldFails fooHeader f" for f
    by (cases f) (simp_all add: fooHeader_fields)
  then have "parseArEntry ord fooHeader = Inr (decoded fooHeader)"
    by (intro parseArEntry_ok fooHeader_shape disjI1)
  then show ?thesis by (simp add: decoded_def fooHeader_values)
qed





lemma laxHeader1_shape:
  "length laxHeader1 = 60"
  "laxHeader1 ! 58 = CHR 0x60"
  by code_simp+

lemma laxHeader1_fields:
  "\<not> fieldFails laxHeader1 TimestampField" "\<not> fieldFails laxHeader1 OwnerIDField"
  "\<not> fieldFails laxHeader1 GroupIDField" "\<not> fieldFails laxHeader1 SizeField"
  by code_simp+

lemma laxHeader1_values:
  "TrimSuffix (TrimSpace (slice 0 16 laxHeader1)) ''/'' = ''foo''"
  "TrimSpace (slice 40 48 laxHeader1) = ''100644''"
  "fieldValue laxHeader1 TimestampField = 1700000000"
  "fieldValue laxHeader1 OwnerIDField = 0"
  "fieldValue laxHeader1 GroupIDField = 0"
  "fieldValue laxHeader1 SizeField = 3"
  by code_simp+

lemma laxHeader1_decodes:
  "parseArEntry ord laxHeader1 =
     Inr \<lparr>Name = ''foo'', Timestamp = 1700000000, OwnerID = 0, GroupID = 0,
          FileMode = ''100644'', Size = 3, Data = None\<rparr>"
proof -
  have "\<not> fieldFails laxHeader1 f" for f
    by (cases f) (simp_all add: laxHeader1_fields)
  then have "parseArEntry ord laxHeader1 = Inr (decoded laxHeader1)"
    by (intro parseArEntry_ok laxHeader1_shape disjI1)
  then show ?thesis by (simp add: decoded_def laxHeader1_values)
qed

lemma laxHeader2_shape:
  "length laxHeader2 = 60"
  "laxHeader2 ! 59 = CHR 0x0A"
  by code_simp+

lemma laxHeader2_fields:
  "\<not> fieldFails laxHeader2 TimestampField" "\<not> fieldFails laxHeader2 OwnerIDField"
  "\<not> fieldFails laxHeader2 GroupIDField" "\<not> fieldFails laxHeader2 SizeField"
  by code_simp+

lemma laxHeader2_values:
  "TrimSuffix (TrimSpace (slice 0 16 laxHeader2)) ''/'' = ''foo''"
  "TrimSpace (slice 40 48 laxHeader2) = ''100644''"
  "fieldValue laxHeader2 TimestampField = 1700000000"
  "fieldValue laxHeader2 OwnerIDField = 0"
  "fieldValue laxHeader2 GroupIDField = 0"
  "fieldValue laxHeader2 SizeField = 3"
  by code_simp+

lemma laxHeader2_decodes:
  "parseArEntry ord laxHeader2 =
     Inr \<lparr>Name = ''foo'', Timestamp = 1700000000, OwnerID = 0, GroupID = 0,
          FileMode = ''100644'', Size = 3, Data = None\<rparr>"
proof -
  have "\<not> fieldFails laxHeader2 f" for f
    by (cases f) (simp_all add: laxHeader2_fields)
  then have "parseArEntry ord laxHeader2 = Inr (decoded laxHeader2)"
    by (intro parseArEntry_ok laxHeader2_shape disjI2)
  then show ?thesis by (simp add: decoded_def laxHeader2_values)
qed

lemma negHeader_shape:
  "length negHeader = 60"
  "negHeader ! 58 = CHR 0x60"
  by code_simp+

lemma negHeader_fields:
  "\<not> fieldFails negHeader TimestampField" "\<not> fieldFails negHeader OwnerIDField"
  "\<not> fieldFails negHeader GroupIDField" "\<not> fieldFails negHeader SizeField"
  by code_simp+

lemma negHeader_values:
  "TrimSuffix (TrimSpace (slice 0 16 negHeader)) ''/'' = ''foo''"
  "TrimSpace (slice 40 48 negHeader) = ''100644''"
  "fieldValue negHeader TimestampField = 1700000000"
  "fieldValue negHeader OwnerIDField = 0"
  "fieldValue negHeader GroupIDField = 0"
  "fieldValue negHeader SizeField = - 101"
  by code_simp+

lemma negHeader_decodes:
  "parseArEntry ord negHeader =
     Inr \<lparr>Name = ''foo'', Timestamp = 1700000000, OwnerID = 0, GroupID = 0,
          FileMode = ''100644'', Size = - 101, Data = None\<rparr>"
proof -
  have "\<not> fieldFails negHeader f" for f
    by (cases f) (simp_all add: negHeader_fields)
  then have "parseArEntry ord negHeader = Inr (decoded negHeader)"
    by (intro parseArEntry_ok negHeader_shape disjI1)
  then show ?thesis by (simp add: decoded_def negHeader_values)
qed

lemma blankHeader_shape:
  "length blankHeader = 60"
  "blankHeader ! 58 = CHR 0x60"
  by code_simp+

lemma blankHeader_fields:
  "\<not> fieldFails blankHeader TimestampField" "\<not> fieldFails blankHeader OwnerIDField"
  "\<not> fieldFails blankHeader GroupIDField" "\<not> fieldFails blankHeader SizeField"
  by code_simp+

lemma blankHeader_values:
  "TrimSuffix (TrimSpace (slice 0 16 blankHeader)) ''/'' = ''foo''"
  "TrimSpace (slice 40 48 blankHeader) = ''100644''"
  "fieldValue blankHeader TimestampField = 0"
  "fieldValue blankHeader OwnerIDField = 0"
  "fieldValue blankHeader GroupIDField = 0"
  "fieldValue blankHeader SizeField = 0"
  by code_simp+

lemma blankHeader_decodes:
  "parseArEntry ord blankHeader =
     Inr \<lparr>Name = ''foo'', Timestamp = 0, OwnerID = 0, GroupID = 0,
          FileMode = ''100644'', Size = 0, Data = None\<rparr>"
proof -
  have "\<not> fieldFails blankHeader f" for f
    by (cases f) (simp_all add: blankHeader_fields)
  then have "parseArEntry ord blankHeader = Inr (decoded blankHeader)"
    by (intro parseArEntry_ok blankHeader_shape disjI1)
  then show ?thesis by (simp add: decoded_def blankHeader_values)
qed

lemma debHeader_shape:
  "length debHeader = 60"
  "debHeader ! 58 = CHR 0x60"
  by code_simp+

lemma debHeader_fields:
  "\<not> fieldFails debHeader TimestampField" "\<not> fieldFails debHeader OwnerIDField"
  "\<not> fieldFails debHeader GroupIDField" "\<not> fieldFails debHeader SizeField"
  by code_simp+

lemma debHeader_values:
  "TrimSuffix (TrimSpace (slice 0 16 debHeader)) ''/'' = ''debian-binary''"
  "TrimSpace (slice 40 48 debHeader) = ''100644''"
  "fieldValue debHeader TimestampField = 1700000000"
  "fieldValue debHeader OwnerIDField = 0"
  "fieldValue debHeader GroupIDField = 0"
  "fieldValue debHeader SizeField = 4"
  by code_simp+

lemma debHeader_decodes:
  "parseArEntry ord debHeader =
     Inr \<lparr>Name = ''debian-binary'', Timestamp = 1700000000, OwnerID = 0, GroupID = 0,
          FileMode = ''100644'', Size = 4, Data = None\<rparr>"
proof -
  have "\<not> fieldFails debHeader f" for f
    by (cases f) (simp_all add: debHeader_fields)
  then have "parseArEntry ord debHeader = Inr (decoded debHeader)"
    by (intro parseArEntry_ok debHeader_shape disjI1)
  then show ?thesis by (simp add: decoded_def debHeader_values)
qed

section \<open>Reading the concrete archives\<close>

lemma read_fooBaz:
  "ReadAt (bytes_Reader fooBazArchive) 8 0 = (arMagic, 8, None)"
  "ReadAt (bytes_Reader fooBazArchive) 60 8 = (fooHeader, 60, None)"
  "ReadAt (bytes_Reader fooBazArchive) 60 72 = (bazHeader, 60, None)"
  "ReadAt (bytes_Reader fooBazArchive) 60 132 = (replicate 60 (CHR 0x00), 0, Some EOF)"
  by code_simp+


lemma read_neg:
  "ReadAt (bytes_Reader negArchive) 8 0 = (arMagic, 8, None)"
  "ReadAt (bytes_Reader negArchive) 60 8 = (negHeader, 60, None)"
  by code_simp+

lemma read_truncated:
  "ReadAt (bytes_Reader truncatedArchive) 8 0 = (arMagic, 8, None)"
  "ReadAt (bytes_Reader truncatedArchive) 60 8 =
     (take 40 fooHeader @ replicate 20 (CHR 0x00), 40, Some EOF)"
  by code_simp+

lemma read_short: "ReadAt (bytes_Reader shortSource) 8 0 = (''!<ar'' @ replicate 4 (CHR 0x00), 4, Some EOF)"
  by code_simp

lemma read_const: "ReadAt (constReader fooHeader) 60 off = (fooHeader, 60, None)"
  by (simp add: ReadAt_def constReader_def fooHeader_shape)


section \<open>The terminator of a header\<close>

text \<open>
  Claim C1 says that a header whose terminator bytes are not exactly \<open>0x60\<close> and
  \<open>0x0A\<close> fails to decode. The source rejects a header only when both bytes are wrong
  (\<^verbatim>\<open>line[58] != 0x60 && line[59] != 0x0A\<close>): a header with one wrong terminator byte,
  the second or the first, decodes as if the terminator were right, in every order of the
  loop.
\<close>

theorem parseArEntry_accepts_wrong_terminator:
  "laxHeader1 ! 58 = CHR 0x60 \<and> laxHeader1 ! 59 = CHR 0x20 \<and>
   parseArEntry ord laxHeader1 =
     Inr \<lparr>Name = ''foo'', Timestamp = 1700000000, OwnerID = 0, GroupID = 0,
          FileMode = ''100644'', Size = 3, Data = None\<rparr> \<and>
   laxHeader2 ! 58 = CHR 0x20 \<and> laxHeader2 ! 59 = CHR 0x0A \<and>
   parseArEntry ord laxHeader2 =
     Inr \<lparr>Name = ''foo'', Timestamp = 1700000000, OwnerID = 0, GroupID = 0,
          FileMode = ''100644'', Size = 3, Data = None\<rparr>"
proof -
  have "laxHeader1 ! 58 = CHR 0x60" "laxHeader1 ! 59 = CHR 0x20"
    "laxHeader2 ! 58 = CHR 0x20" "laxHeader2 ! 59 = CHR 0x0A"
    by code_simp+
  then show ?thesis
    by (simp add: laxHeader1_decodes laxHeader2_decodes)
qed

section \<open>A header cut short\<close>

text \<open>
  When the read returns an error, \<^verbatim>\<open>Next\<close> returns it without looking at the count.
  The in-memory source returns an error with every read that does not fill the buffer,
  so on such a source the branch of the short read is never taken.
\<close>

lemma Next_read_error:
  "ReadAt (inp d) 60 (offset d) = (line, count, Some e) \<Longrightarrow> Next ord d = (Inl e, d)"
  by (simp add: Next_def)

lemma bytes_Reader_short_read:
  "ReadAt (bytes_Reader s) len off = (buf, count, None) \<Longrightarrow> count = len"
  by (auto simp: ReadAt_def bytes_Reader_def Let_def split: if_splits)

lemma Next_bytes_Reader_no_short_read:
  "fst (Next ord \<lparr>inp = bytes_Reader s, offset = off\<rparr>) \<noteq>
     Inl (Errorf ''Caught a short read at the end'')"
proof (cases "ReadAt (bytes_Reader s) 60 off")
  case (fields line count err)
  show ?thesis
  proof (cases err)
    case None
    with fields bytes_Reader_short_read [of s 60 off line count] have "count = 60" by simp
    with fields None show ?thesis
      by (simp add: Next_def parseArEntry_def split: sum.splits)
        (auto dest!: parseFields_Inl)
  next
    case (Some e)
    with fields have "e = EOF \<or> e = ReadError ''bytes.Reader.ReadAt: negative offset''"
      by (auto simp: ReadAt_def bytes_Reader_def Let_def split: if_splits)
    with fields Some show ?thesis
      by (auto simp: Next_def)
  qed
qed

text \<open>
  Claim C2 says that an advance whose read yields fewer than 60 bytes fails with a format
  error, in particular when the last header of the archive has only 40 bytes. On the
  archive cut off 40 bytes into its first header the read stores 40 bytes and returns
  \<^verbatim>\<open>io.EOF\<close>, as every \<^verbatim>\<open>io.ReaderAt\<close> does on a short read; \<^verbatim>\<open>Next\<close> returns that
  error before it looks at the count, so the advance signals the end of the archive and
  not a format error.
\<close>

theorem Next_truncated_header_is_EOF:
  "LoadAr (bytes_Reader truncatedArchive) = Inr \<lparr>inp = bytes_Reader truncatedArchive, offset = 8\<rparr> \<and>
   ReadAt (bytes_Reader truncatedArchive) 60 8 =
     (take 40 fooHeader @ replicate 20 (CHR 0x00), 40, Some EOF) \<and>
   Next ord \<lparr>inp = bytes_Reader truncatedArchive, offset = 8\<rparr> =
     (Inl EOF, \<lparr>inp = bytes_Reader truncatedArchive, offset = 8\<rparr>) \<and>
   EndOfArchive EOF \<and> \<not> FormatError EOF"
  by (simp add: LoadAr_def checkAr_def Next_def read_truncated arMagic_def EndOfArchive_def)

section \<open>The offset across successful advances\<close>

text \<open>
  Claim C3, as the specification states it, fails: the size field is parsed as a signed
  number, and after the header whose size reads \<open>-101\<close> the offset has gone from 8 back
  to -34. The offset is a 64-bit integer as well: from the offset \<open>2^63 - 61\<close> a
  successful advance over a member of 3 bytes wraps around to \<open>- 2^63 + 3\<close>.
\<close>

theorem offset_decreases:
  "LoadAr (bytes_Reader negArchive) = Inr \<lparr>inp = bytes_Reader negArchive, offset = 8\<rparr> \<and>
   Next [] \<lparr>inp = bytes_Reader negArchive, offset = 8\<rparr> =
     (Inr \<lparr>Name = ''foo'', Timestamp = 1700000000, OwnerID = 0, GroupID = 0,
          FileMode = ''100644'', Size = - 101,
          Data = Some \<lparr>sec_r = bytes_Reader negArchive, sec_off = 68, sec_n = - 101\<rparr>\<rparr>,
      \<lparr>inp = bytes_Reader negArchive, offset = - 34\<rparr>) \<and>
   \<not> (8 \<le> offset \<lparr>inp = bytes_Reader negArchive, offset = - 34\<rparr>) \<and>
   offset (snd (Next [] \<lparr>inp = constReader fooHeader, offset = 2 ^ 63 - 61\<rparr>)) = - (2 ^ 63) + 3"
  by (simp add: LoadAr_def checkAr_def Next_def read_neg read_const arMagic_def
      negHeader_decodes fooHeader_decodes int64_def rem_def)

text \<open>
  Claim C3, amended: the offset after a successful advance is greater than or equal to
  the offset before it whenever the decoded size is at least -60 (so whenever it is not
  negative) and the new offset, computed exactly, is a value of a 64-bit signed integer.
\<close>

theorem offset_monotone:
  assumes "Next ord d = (Inr m, d')"
    and "- 60 \<le> Size m"
    and "fitsInt64 (offset d + 60 + Size m + rem (Size m) 2)"
  shows "offset d \<le> offset d'"
proof -
  from Next_Inr [OF assms(1)] obtain line e where
    m: "m = e\<lparr>Data := Some \<lparr>sec_r = inp d, sec_off = int64 (offset d + 60), sec_n = Size e\<rparr>\<rparr>"
    and d': "d' = d\<lparr>offset := int64 (offset d + (60 + Size e + rem (Size e) 2))\<rparr>"
    by blast
  from m have s: "Size m = Size e" by simp
  have "offset d + (60 + Size e + rem (Size e) 2) = offset d + 60 + Size m + rem (Size m) 2"
    by (simp add: s)
  with d' assms(3) have "offset d' = offset d + 60 + Size m + rem (Size m) 2"
    by (simp add: int64_id)
  with advance_nonneg [OF assms(2)] show ?thesis by simp
qed

theorem offset_monotone_witness:
  "offset \<lparr>inp = bytes_Reader fooBazArchive, offset = 8\<rparr> \<le>
   offset (snd (Next [] \<lparr>inp = bytes_Reader fooBazArchive, offset = 8\<rparr>)) \<and>
   offset (snd (Next [] \<lparr>inp = bytes_Reader fooBazArchive, offset = 8\<rparr>)) = 72"
proof -
  let ?d = "\<lparr>inp = bytes_Reader fooBazArchive, offset = 8\<rparr>"
  let ?m = "\<lparr>Name = ''foo'', Timestamp = 1700000000, OwnerID = 0, GroupID = 0,
          FileMode = ''100644'', Size = 3,
          Data = Some \<lparr>sec_r = bytes_Reader fooBazArchive, sec_off = 68, sec_n = 3\<rparr>\<rparr>"
  let ?d' = "\<lparr>inp = bytes_Reader fooBazArchive, offset = 72\<rparr>"
  have n: "Next [] ?d = (Inr ?m, ?d')"
    by (simp add: Next_def read_fooBaz fooHeader_decodes int64_def rem_def)
  have s: "- 60 \<le> Size ?m" by simp
  have f: "fitsInt64 (offset ?d + 60 + Size ?m + rem (Size ?m) 2)"
    by (simp add: fitsInt64_def rem_def)
  from offset_monotone [OF n s f] n show ?thesis by simp
qed

section \<open>How far an advance moves the offset\<close>

text \<open>
  Claim C5, as the specification states it, fails for a negative size: after the header
  whose size reads \<open>-101\<close> the offset has moved by \<open>60 - 101 - 1 = -42\<close>, since Go's
  \<^verbatim>\<open>%\<close> gives \<open>-1\<close> for a negative odd number; the claim's \<open>60 + size + (size mod 2)\<close> is
  \<open>-40\<close>, one pad byte after the data. The sum is also computed in 64 bits: from the
  offset \<open>2^63 - 61\<close> an advance over a member of 3 bytes does not add 64.
\<close>

theorem advance_negative_odd_size:
  "Next [] \<lparr>inp = bytes_Reader negArchive, offset = 8\<rparr> =
     (Inr \<lparr>Name = ''foo'', Timestamp = 1700000000, OwnerID = 0, GroupID = 0,
          FileMode = ''100644'', Size = - 101,
          Data = Some \<lparr>sec_r = bytes_Reader negArchive, sec_off = 68, sec_n = - 101\<rparr>\<rparr>,
      \<lparr>inp = bytes_Reader negArchive, offset = - 34\<rparr>) \<and>
   (- 34 :: int) = 8 + 60 + (- 101) + (- 1) \<and>
   (- 34 :: int) \<noteq> 8 + 60 + (- 101) + (- 101) mod 2 \<and>
   odd (- 101 :: int) \<and> (- 34 :: int) \<noteq> 8 + 60 + (- 101) + 1 \<and>
   offset (snd (Next [] \<lparr>inp = constReader fooHeader, offset = 2 ^ 63 - 61\<rparr>)) \<noteq>
     (2 ^ 63 - 61) + 60 + 3 + 3 mod 2"
  by (simp add: Next_def read_neg read_const negHeader_decodes fooHeader_decodes int64_def rem_def)

text \<open>
  Claim C5, amended: for every successful advance that decodes a header with a size that
  is not negative, from an offset and to a new offset that a 64-bit signed integer holds,
  the offset is advanced by exactly \<open>60 + size + (size mod 2)\<close>, and the data range of the
  returned member starts at the offset before the advance plus 60 and has length \<open>size\<close>;
  so one pad byte is skipped for an odd size and none for an even size.
\<close>

theorem advance_exact:
  assumes "Next ord d = (Inr m, d')"
    and "0 \<le> Size m"
    and "fitsInt64 (offset d)"
    and "fitsInt64 (offset d + 60 + Size m + Size m mod 2)"
  shows "offset d' = offset d + 60 + Size m + Size m mod 2 \<and>
         Data m = Some \<lparr>sec_r = inp d, sec_off = offset d + 60, sec_n = Size m\<rparr> \<and>
         (odd (Size m) \<longrightarrow> offset d' = offset d + 60 + Size m + 1) \<and>
         (even (Size m) \<longrightarrow> offset d' = offset d + 60 + Size m)"
proof -
  from Next_Inr [OF assms(1)] obtain line e where
    m: "m = e\<lparr>Data := Some \<lparr>sec_r = inp d, sec_off = int64 (offset d + 60), sec_n = Size e\<rparr>\<rparr>"
    and d': "d' = d\<lparr>offset := int64 (offset d + (60 + Size e + rem (Size e) 2))\<rparr>"
    by blast
  from m have s: "Size e = Size m" by simp
  have r: "rem (Size m) 2 = Size m mod 2"
    using assms(2) by (simp add: rem_2_cases)
  have "offset d + (60 + Size e + rem (Size e) 2) = offset d + 60 + Size m + Size m mod 2"
    by (simp add: s r)
  with d' assms(4) have o: "offset d' = offset d + 60 + Size m + Size m mod 2"
    by (simp add: int64_id)
  have "0 \<le> Size m mod 2" by simp
  with assms(2,3,4) have "fitsInt64 (offset d + 60)"
    by (simp add: fitsInt64_def)
  then have "int64 (offset d + 60) = offset d + 60" by (rule int64_id)
  moreover from m
  have "Data m = Some \<lparr>sec_r = inp d, sec_off = int64 (offset d + 60), sec_n = Size e\<rparr>"
    by simp
  ultimately
  have dm: "Data m = Some \<lparr>sec_r = inp d, sec_off = offset d + 60, sec_n = Size m\<rparr>"
    by (simp add: s)
  have "odd (Size m) \<Longrightarrow> Size m mod 2 = 1" and "even (Size m) \<Longrightarrow> Size m mod 2 = 0"
    by presburger+
  with o dm show ?thesis by simp
qed

theorem advance_exact_witness:
  "Next [] \<lparr>inp = bytes_Reader fooBazArchive, offset = 8\<rparr> =
     (Inr \<lparr>Name = ''foo'', Timestamp = 1700000000, OwnerID = 0, GroupID = 0,
          FileMode = ''100644'', Size = 3,
          Data = Some \<lparr>sec_r = bytes_Reader fooBazArchive, sec_off = 68, sec_n = 3\<rparr>\<rparr>,
      \<lparr>inp = bytes_Reader fooBazArchive, offset = 72\<rparr>) \<and>
   (72 :: int) = 8 + 60 + 3 + 3 mod 2 \<and> odd (3 :: int) \<and> (72 :: int) = 8 + 60 + 3 + 1"
proof -
  let ?d = "\<lparr>inp = bytes_Reader fooBazArchive, offset = 8\<rparr>"
  let ?m = "\<lparr>Name = ''foo'', Timestamp = 1700000000, OwnerID = 0, GroupID = 0,
          FileMode = ''100644'', Size = 3,
          Data = Some \<lparr>sec_r = bytes_Reader fooBazArchive, sec_off = 68, sec_n = 3\<rparr>\<rparr>"
  let ?d' = "\<lparr>inp = bytes_Reader fooBazArchive, offset = 72\<rparr>"
  have n: "Next [] ?d = (Inr ?m, ?d')"
    by (simp add: Next_def read_fooBaz fooHeader_decodes int64_def rem_def)
  have s: "0 \<le> Size ?m" by simp
  have f0: "fitsInt64 (offset ?d)" by (simp add: fitsInt64_def)
  have f: "fitsInt64 (offset ?d + 60 + Size ?m + Size ?m mod 2)"
    by (simp add: fitsInt64_def)
  from advance_exact [OF n s f0 f] n show ?thesis by simp
qed

section \<open>Opening an archive\<close>

lemma ReadAt_length: "ReadAt r len off = (buf, n, err) \<Longrightarrow> length buf = len \<and> n \<le> len"
  by (auto simp: ReadAt_def split: prod.splits)

lemma ReadAt_bytes_Reader_short:
  "length s < len \<Longrightarrow> snd (snd (ReadAt (bytes_Reader s) len 0)) = Some EOF"
  by (simp add: ReadAt_def bytes_Reader_def Let_def)

lemma ReadAt_bytes_Reader_full:
  "len \<le> length s \<Longrightarrow> 0 < len \<Longrightarrow> ReadAt (bytes_Reader s) len 0 = (take len s, len, None)"
  by (auto simp: ReadAt_def bytes_Reader_def Let_def min_def)

text \<open>
  Claim C8, as the specification states it, fails where fewer than 8 bytes are available:
  the read of the in-memory source of four bytes returns \<^verbatim>\<open>io.EOF\<close>, and \<^verbatim>\<open>LoadAr\<close>
  fails with that error, which is not a format error of this package but the value that
  signals the end of an archive.
\<close>

theorem LoadAr_short_source_is_EOF:
  "length shortSource < 8 \<and>
   ReadAt (bytes_Reader shortSource) 8 0 = (''!<ar'' @ replicate 4 (CHR 0x00), 4, Some EOF) \<and>
   LoadAr (bytes_Reader shortSource) = Inl EOF \<and> \<not> FormatError EOF"
  by (simp add: LoadAr_def checkAr_def read_short) (simp add: shortSource_def)

text \<open>
  Claim C8, amended: for every byte source, \<^verbatim>\<open>LoadAr\<close> makes one read of 8 bytes at
  offset 0 and depends on nothing else of the source. When the read returns no error and
  the 8 bytes are the magic, it returns a cursor whose offset is 8; when the read returns
  no error and the bytes differ, it fails with the format error
  \<^verbatim>\<open>Header doesn't look right!\<close>; when the read returns an error, it fails with that
  error unchanged; no cursor is returned when it fails. On an in-memory source of fewer
  than 8 bytes the read returns \<^verbatim>\<open>io.EOF\<close>, so that is the error of \<^verbatim>\<open>LoadAr\<close>; on one of
  8 bytes or more the outcome is decided by its first 8 bytes.
\<close>

theorem LoadAr_outcomes:
  assumes "ReadAt r 8 0 = (header, count, err)"
  shows "(err = None \<and> header = arMagic \<longrightarrow> LoadAr r = Inr \<lparr>inp = r, offset = 8\<rparr>) \<and>
         (err = None \<and> header \<noteq> arMagic \<longrightarrow>
            LoadAr r = Inl (Errorf ''Header doesn't look right!'') \<and>
            FormatError (Errorf ''Header doesn't look right!'')) \<and>
         (\<forall>e. err = Some e \<longrightarrow> LoadAr r = Inl e) \<and>
         (\<forall>r'. r' 8 0 = r 8 0 \<longrightarrow> checkAr r' = checkAr r) \<and>
         (length s < 8 \<longrightarrow> LoadAr (bytes_Reader s) = Inl EOF) \<and>
         (8 \<le> length s \<longrightarrow>
            LoadAr (bytes_Reader s) =
              (if take 8 s = arMagic then Inr \<lparr>inp = bytes_Reader s, offset = 8\<rparr>
               else Inl (Errorf ''Header doesn't look right!'')))"
proof -
  from ReadAt_length [OF assms] have len: "length header = 8" by simp
  have a: "err = None \<and> header = arMagic \<longrightarrow> LoadAr r = Inr \<lparr>inp = r, offset = 8\<rparr>"
    using assms by (simp add: LoadAr_def checkAr_def arMagic_def)
  have b: "err = None \<and> header \<noteq> arMagic \<longrightarrow>
      LoadAr r = Inl (Errorf ''Header doesn't look right!'') \<and>
      FormatError (Errorf ''Header doesn't look right!'')"
    using assms by (simp add: LoadAr_def checkAr_def arMagic_def)
  have c: "\<forall>e. err = Some e \<longrightarrow> LoadAr r = Inl e"
    using assms by (simp add: LoadAr_def checkAr_def)
  have d: "\<forall>r'. r' 8 0 = r 8 0 \<longrightarrow> checkAr r' = checkAr r"
    by (simp add: checkAr_def ReadAt_def)
  have e: "length s < 8 \<longrightarrow> LoadAr (bytes_Reader s) = Inl EOF"
  proof
    assume "length s < 8"
    from ReadAt_bytes_Reader_short [OF this]
    show "LoadAr (bytes_Reader s) = Inl EOF"
      by (auto simp: LoadAr_def checkAr_def split: prod.splits)
  qed
  have f: "8 \<le> length s \<longrightarrow>
            LoadAr (bytes_Reader s) =
              (if take 8 s = arMagic then Inr \<lparr>inp = bytes_Reader s, offset = 8\<rparr>
               else Inl (Errorf ''Header doesn't look right!''))"
  proof
    assume "8 \<le> length s"
    then have "ReadAt (bytes_Reader s) 8 0 = (take 8 s, 8, None)"
      by (simp add: ReadAt_bytes_Reader_full)
    then show "LoadAr (bytes_Reader s) =
              (if take 8 s = arMagic then Inr \<lparr>inp = bytes_Reader s, offset = 8\<rparr>
               else Inl (Errorf ''Header doesn't look right!''))"
      using \<open>8 \<le> length s\<close> by (simp add: LoadAr_def checkAr_def arMagic_def)
  qed
  from a b c d e f show ?thesis by blast
qed

theorem LoadAr_outcomes_witness:
  "ReadAt (bytes_Reader fooBazArchive) 8 0 = (arMagic, 8, None) \<and>
   LoadAr (bytes_Reader fooBazArchive) = Inr \<lparr>inp = bytes_Reader fooBazArchive, offset = 8\<rparr> \<and>
   LoadAr (bytes_Reader shortSource) = Inl EOF"
proof -
  have l: "length shortSource < 8" by (simp add: shortSource_def)
  from LoadAr_outcomes [OF read_fooBaz(1), of shortSource] l read_fooBaz(1)
  show ?thesis by simp
qed

section \<open>The round trip\<close>




section \<open>The sign of a parsed number\<close>

lemma digitVal_nonneg: "isDigit ch \<Longrightarrow> 0 \<le> digitVal ch"
  by (simp add: isDigit_def digitVal_def)

lemma atoiLoop_nonneg: "atoiLoop s n = Some v \<Longrightarrow> 0 \<le> n \<Longrightarrow> 0 \<le> v"
proof (induction s arbitrary: n)
  case Nil
  then show ?case by simp
next
  case (Cons ch s)
  from Cons.prems(1) have d: "isDigit ch" and r: "atoiLoop s (n * 10 + digitVal ch) = Some v"
    by (simp_all split: if_splits)
  from Cons.prems(2) digitVal_nonneg [OF d] have "0 \<le> n * 10 + digitVal ch" by simp
  from Cons.IH [OF r this] show ?case .
qed

lemma parseUintLoop_nonneg: "parseUintLoop s n = Inr v \<Longrightarrow> 0 \<le> n \<Longrightarrow> 0 \<le> v"
proof (induction s arbitrary: n)
  case Nil
  then show ?case by simp
next
  case (Cons ch s)
  from Cons.prems(1) have d: "isDigit ch" and r: "parseUintLoop s (n * 10 + digitVal ch) = Inr v"
    by (simp_all split: if_splits)
  from Cons.prems(2) digitVal_nonneg [OF d] have "0 \<le> n * 10 + digitVal ch" by simp
  from Cons.IH [OF r this] show ?case .
qed

lemma prefix_minus: "prefix ''-'' s \<longleftrightarrow> s \<noteq> [] \<and> hd s = CHR ''-''"
  by (cases s) auto

lemma Atoi_nonneg:
  assumes "Atoi s = Inr v" and "\<not> prefix ''-'' s"
  shows "0 \<le> v"
proof (cases "0 < length s \<and> length s < 19")
  case True
  with assms(2) have h: "hd s \<noteq> CHR ''-''" by (simp add: prefix_minus)
  from assms(1) True h obtain s1 n where "atoiLoop s1 0 = Some n" and "v = n"
    by (auto simp: Atoi_def Let_def split: if_splits option.splits)
  with atoiLoop_nonneg [of s1 0 n] show ?thesis by simp
next
  case False
  with assms(1) have p: "ParseInt s = Inr v" by (auto simp: Atoi_def split: if_splits)
  then have ne: "s \<noteq> []" by (auto simp: ParseInt_def)
  with assms(2) have h: "hd s \<noteq> CHR ''-''" by (simp add: prefix_minus)
  from p ne h obtain s1 un where "ParseUint s1 = Inr un" and "v = un"
    by (auto simp: ParseInt_def Let_def split: if_splits sum.splits num_error.splits)
  then have "parseUintLoop s1 0 = Inr un"
    by (auto simp: ParseUint_def split: if_splits)
  with parseUintLoop_nonneg [of s1 0 un] \<open>v = un\<close> show ?thesis by simp
qed

lemma fieldValue_nonneg:
  assumes "\<not> fieldFails line f" and "\<not> prefix ''-'' (fieldInput line f)"
  shows "0 \<le> fieldValue line f"
proof (cases "fieldInput line f = []")
  case True
  then show ?thesis by (simp add: fieldValue_def)
next
  case False
  with assms(1) obtain v where v: "toDecimal (fieldInput line f) = Inr v"
    by (cases "toDecimal (fieldInput line f)") (auto simp: fieldFails_def)
  with assms(2) have "0 \<le> v"
    using Atoi_nonneg [of "fieldInput line f" v] by (simp add: toDecimal_def)
  with v False show ?thesis by (simp add: fieldValue_def)
qed

text \<open>
  Claim C4, as the specification states it, fails: the header whose size field reads
  \<open>-101\<close> decodes, without an error, to an entry of size -101.
\<close>

theorem negative_size_decodes:
  "TrimSpace (slice 48 58 negHeader) = ''-101'' \<and>
   parseArEntry [] negHeader =
     Inr \<lparr>Name = ''foo'', Timestamp = 1700000000, OwnerID = 0, GroupID = 0,
          FileMode = ''100644'', Size = - 101, Data = None\<rparr> \<and>
   \<not> 0 \<le> Size \<lparr>Name = ''foo'', Timestamp = 1700000000, OwnerID = 0, GroupID = 0,
          FileMode = ''100644'', Size = - 101, Data = None\<rparr>"
proof -
  have "TrimSpace (slice 48 58 negHeader) = ''-101''" by code_simp
  then show ?thesis by (simp add: negHeader_decodes)
qed

text \<open>
  Claim C4, amended: the size of a member descriptor that the header decoder produces is
  a signed integer, not negative whenever the trimmed size field does not begin with a
  minus sign; and it is this size that an advance gives as the length of the member's
  data range.
\<close>

theorem size_sign_and_data_length:
  "(parseArEntry ord line = Inr e \<and> \<not> prefix ''-'' (TrimSpace (slice 48 58 line)) \<longrightarrow>
      0 \<le> Size e) \<and>
   (Next ord d = (Inr m, d') \<longrightarrow> map_option sec_n (Data m) = Some (Size m))"
proof (intro conjI impI)
  assume a: "parseArEntry ord line = Inr e \<and> \<not> prefix ''-'' (TrimSpace (slice 48 58 line))"
  then have p: "parseArEntry ord line = Inr e" ..
  from a have "\<not> prefix ''-'' (fieldInput line SizeField)"
    by (simp add: fieldInput_def)
  from fieldValue_nonneg [OF parseArEntry_Inr(3) [OF p] this] parseArEntry_Inr(4) [OF p]
  show "0 \<le> Size e" by (simp add: decoded_def)
next
  assume "Next ord d = (Inr m, d')"
  from Next_Inr [OF this] show "map_option sec_n (Data m) = Some (Size m)"
    by auto
qed

theorem size_sign_and_data_length_witness:
  "parseArEntry [] fooHeader =
     Inr \<lparr>Name = ''foo'', Timestamp = 1700000000, OwnerID = 0, GroupID = 0,
          FileMode = ''100644'', Size = 3, Data = None\<rparr> \<and>
   TrimSpace (slice 48 58 fooHeader) = ''3'' \<and>
   (0 :: int) \<le> 3 \<and>
   fst (Next [] \<lparr>inp = bytes_Reader fooBazArchive, offset = 8\<rparr>) =
     Inr \<lparr>Name = ''foo'', Timestamp = 1700000000, OwnerID = 0, GroupID = 0,
          FileMode = ''100644'', Size = 3,
          Data = Some \<lparr>sec_r = bytes_Reader fooBazArchive, sec_off = 68, sec_n = 3\<rparr>\<rparr>"
proof -
  let ?e = "\<lparr>Name = ''foo'', Timestamp = 1700000000, OwnerID = 0, GroupID = 0,
          FileMode = ''100644'', Size = 3, Data = None\<rparr>"
  let ?d = "\<lparr>inp = bytes_Reader fooBazArchive, offset = 8\<rparr>"
  let ?m = "\<lparr>Name = ''foo'', Timestamp = 1700000000, OwnerID = 0, GroupID = 0,
          FileMode = ''100644'', Size = 3,
          Data = Some \<lparr>sec_r = bytes_Reader fooBazArchive, sec_off = 68, sec_n = 3\<rparr>\<rparr>"
  let ?d' = "\<lparr>inp = bytes_Reader fooBazArchive, offset = 72\<rparr>"
  have t: "TrimSpace (slice 48 58 fooHeader) = ''3''" by code_simp
  have p: "parseArEntry [] fooHeader = Inr ?e" by (rule fooHeader_decodes)
  have n: "Next [] ?d = (Inr ?m, ?d')"
    by (simp add: Next_def read_fooBaz fooHeader_decodes int64_def rem_def)
  have np: "\<not> prefix ''-'' (TrimSpace (slice 48 58 fooHeader))" by (simp add: t)
  from size_sign_and_data_length [of "[]" fooHeader ?e ?d ?m ?d'] p np n t
  show ?thesis by simp
qed

section \<open>Trimming, stated without the trimming functions\<close>

lemma concatOf_append: "concatOf rs a \<Longrightarrow> concatOf rs b \<Longrightarrow> concatOf rs (a @ b)"
  by (induction rule: concatOf.induct) (auto intro: concatOf.intros)

lemma concatOf_single: "r \<in> set rs \<Longrightarrow> concatOf rs r"
  using concatOf_App [of r rs "[]"] by (simp add: concatOf_Nil)

lemma concatOf_rev: "concatOf (map rev rs) s \<Longrightarrow> concatOf rs (rev s)"
proof (induction "map rev rs" s rule: concatOf.induct)
  case concatOf_Nil
  show ?case by (simp add: concatOf.concatOf_Nil)
next
  case (concatOf_App r s)
  from concatOf_App.hyps(1) obtain r' where "r' \<in> set rs" and "r = rev r'" by auto
  then have "concatOf rs (rev r)" by (simp add: concatOf_single)
  with concatOf_App.hyps(3) show ?case by (simp add: concatOf_append)
qed

lemma runeWidth_0: "runeWidth rs s = 0 \<Longrightarrow> r \<in> set rs \<Longrightarrow> r \<noteq> [] \<Longrightarrow> \<not> prefix r s"
  by (auto simp: runeWidth_def find_None_iff find_Some_iff split: option.splits)

lemma runeWidth_pos:
  "runeWidth rs s \<noteq> 0 \<Longrightarrow> \<exists>r \<in> set rs. prefix r s \<and> runeWidth rs s = length r"
proof (cases "find (\<lambda>r. r \<noteq> [] \<and> prefix r s) rs")
  case None
  assume "runeWidth rs s \<noteq> 0"
  with None show ?thesis by (simp add: runeWidth_def)
next
  case (Some r)
  then have "r \<in> set rs" and "prefix r s"
    by (auto simp: find_Some_iff)
  with Some show ?thesis by (auto simp: runeWidth_def)
qed

lemma trimRunes_spec:
  "\<exists>pre. s = pre @ trimRunes rs s \<and> concatOf rs pre \<and>
         (\<forall>r \<in> set rs. r \<noteq> [] \<longrightarrow> \<not> prefix r (trimRunes rs s))"
proof (induction rs s rule: trimRunes.induct)
  case (1 rs s)
  show ?case
  proof (cases "runeWidth rs s = 0")
    case True
    then have "trimRunes rs s = s" by (simp add: trimRunes.simps)
    with True show ?thesis
      by (auto intro: concatOf_Nil dest: runeWidth_0)
  next
    case False
    from runeWidth_pos [OF False] obtain r where r: "r \<in> set rs" "prefix r s"
      and w: "runeWidth rs s = length r" by blast
    from r(2) have s: "s = r @ drop (length r) s" by (auto simp: prefix_def)
    from False have t: "trimRunes rs s = trimRunes rs (drop (length r) s)"
      by (subst trimRunes.simps) (simp add: w)
    from "1.IH" [OF False] w obtain pre where
      p: "drop (length r) s = pre @ trimRunes rs (drop (length r) s)" "concatOf rs pre"
        "\<forall>r' \<in> set rs. r' \<noteq> [] \<longrightarrow> \<not> prefix r' (trimRunes rs (drop (length r) s))"
      by auto
    from s p(1) have "s = (r @ pre) @ trimRunes rs s" by (simp add: t)
    moreover from r(1) p(2) have "concatOf rs (r @ pre)" by (rule concatOf_App)
    ultimately show ?thesis using p(3) t by metis
  qed
qed

lemma spaceRunes_nonempty: "r \<in> set spaceRunes \<Longrightarrow> r \<noteq> []"
  by (auto simp: spaceRunes_def)

lemma TrimSpace_spec:
  "\<exists>pre post. s = pre @ TrimSpace s @ post \<and> whiteSpace pre \<and> whiteSpace post \<and>
     (\<forall>r \<in> set spaceRunes. \<not> prefix r (TrimSpace s) \<and> \<not> suffix r (TrimSpace s))"
proof -
  let ?t = "TrimLeftSpace s"
  from trimRunes_spec [of s spaceRunes] obtain pre where
    pre: "s = pre @ ?t" "concatOf spaceRunes pre"
      "\<forall>r \<in> set spaceRunes. r \<noteq> [] \<longrightarrow> \<not> prefix r ?t"
    by (auto simp: TrimLeftSpace_def)
  let ?u = "trimRunes (map rev spaceRunes) (rev ?t)"
  from trimRunes_spec [of "rev ?t" "map rev spaceRunes"] obtain q where
    q: "rev ?t = q @ ?u" "concatOf (map rev spaceRunes) q"
      "\<forall>r \<in> set (map rev spaceRunes). r \<noteq> [] \<longrightarrow> \<not> prefix r ?u"
    by blast
  have ts: "TrimSpace s = rev ?u" by (simp add: TrimSpace_def TrimRightSpace_def)
  from q(1) have t: "?t = rev ?u @ rev q"
    by (metis rev_append rev_rev_ident)
  have "s = pre @ TrimSpace s @ rev q" using pre(1) t ts by simp
  moreover have "whiteSpace pre" using pre(2) by (simp add: whiteSpace_def)
  moreover have "whiteSpace (rev q)" using concatOf_rev [OF q(2)] by (simp add: whiteSpace_def)
  moreover have "\<not> prefix r (TrimSpace s) \<and> \<not> suffix r (TrimSpace s)" if r: "r \<in> set spaceRunes" for r
  proof
    from r have ne: "r \<noteq> []" by (rule spaceRunes_nonempty)
    show "\<not> prefix r (TrimSpace s)"
    proof
      assume "prefix r (TrimSpace s)"
      then have "prefix r ?t" using t ts by (metis prefix_prefix)
      with pre(3) r ne show False by blast
    qed
    show "\<not> suffix r (TrimSpace s)"
    proof
      assume "suffix r (TrimSpace s)"
      then have "prefix (rev r) ?u" using ts by (simp add: suffix_to_prefix)
      moreover from r have "rev r \<in> set (map rev spaceRunes)" by simp
      ultimately show False using q(3) ne by auto
    qed
  qed
  ultimately show ?thesis by blast
qed

lemma TrimSuffix_slash: "TrimSuffix s ''/'' = (if suffix ''/'' s then butlast s else s)"
  by (simp add: TrimSuffix_def butlast_conv_take)

section \<open>The name of an entry\<close>

text \<open>
  Claim C7. Every header of 60 bytes that passes the check of the terminator and has no
  numeric field that fails decodes, in every order of the loop, to an entry with this
  name: the 16 bytes of the name field are white space, then a core that neither starts
  nor ends with a white-space rune, then white space, and the name is the core without
  its last byte when the core ends with a slash and the core itself otherwise, so only
  one slash is taken off and nothing else is changed. In particular the name field
  \<open>debian-binary/\<close> padded with spaces decodes to the name \<open>debian-binary\<close>.
\<close>

theorem name_is_trimmed_field:
  assumes "length line = 60"
    and "line ! 58 = CHR 0x60 \<or> line ! 59 = CHR 0x0A"
    and "\<forall>f. \<not> fieldFails line f"
  shows "\<exists>e. parseArEntry ord line = Inr e \<and>
           (\<exists>pre core post.
              slice 0 16 line = pre @ core @ post \<and> length (slice 0 16 line) = 16 \<and>
              whiteSpace pre \<and> whiteSpace post \<and>
              (\<forall>r \<in> set spaceRunes. \<not> prefix r core \<and> \<not> suffix r core) \<and>
              Name e = (if suffix ''/'' core then butlast core else core)) \<and>
           (slice 0 16 line = ''debian-binary/  '' \<longrightarrow> Name e = ''debian-binary'')"
proof -
  from assms have p: "parseArEntry ord line = Inr (decoded line)"
    by (intro parseArEntry_ok) simp_all
  have n: "Name (decoded line) = TrimSuffix (TrimSpace (slice 0 16 line)) ''/''"
    by (simp add: decoded_def)
  from assms(1) have l: "length (slice 0 16 line) = 16"
    by (simp add: slice_def)
  from TrimSpace_spec [of "slice 0 16 line"] obtain pre post where
    "slice 0 16 line = pre @ TrimSpace (slice 0 16 line) @ post" "whiteSpace pre" "whiteSpace post"
    "\<forall>r \<in> set spaceRunes. \<not> prefix r (TrimSpace (slice 0 16 line)) \<and>
        \<not> suffix r (TrimSpace (slice 0 16 line))"
    by blast
  with n l have a: "\<exists>pre core post.
            slice 0 16 line = pre @ core @ post \<and> length (slice 0 16 line) = 16 \<and>
            whiteSpace pre \<and> whiteSpace post \<and>
            (\<forall>r \<in> set spaceRunes. \<not> prefix r core \<and> \<not> suffix r core) \<and>
            Name (decoded line) = (if suffix ''/'' core then butlast core else core)"
    unfolding TrimSuffix_slash by blast
  have "TrimSuffix (TrimSpace ''debian-binary/  '') ''/'' = ''debian-binary''"
    by code_simp
  with n have b: "slice 0 16 line = ''debian-binary/  '' \<longrightarrow> Name (decoded line) = ''debian-binary''"
    by simp
  from p a b show ?thesis by blast
qed

theorem name_is_trimmed_field_witness:
  "length debHeader = 60 \<and> debHeader ! 58 = CHR 0x60 \<and>
   slice 0 16 debHeader = ''debian-binary/  '' \<and>
   (\<exists>e. parseArEntry [] debHeader = Inr e \<and> Name e = ''debian-binary'') \<and>
   parseArEntry [] debHeader =
     Inr \<lparr>Name = ''debian-binary'', Timestamp = 1700000000, OwnerID = 0, GroupID = 0,
          FileMode = ''100644'', Size = 4, Data = None\<rparr>"
proof -
  have s: "slice 0 16 debHeader = ''debian-binary/  ''" by code_simp
  have t: "debHeader ! 58 = CHR 0x60 \<or> debHeader ! 59 = CHR 0x0A"
    by (simp add: debHeader_shape)
  have f: "\<forall>f. \<not> fieldFails debHeader f"
  proof
    fix f show "\<not> fieldFails debHeader f"
      by (cases f) (simp_all add: debHeader_fields)
  qed
  from name_is_trimmed_field [OF debHeader_shape(1) t f, of "[]"] s
  have "\<exists>e. parseArEntry [] debHeader = Inr e \<and> Name e = ''debian-binary''"
    by auto
  with s debHeader_shape debHeader_decodes [of "[]"] show ?thesis by simp
qed

section \<open>The numeric fields\<close>

lemma badHeader_shape: "length badHeader = 60" "badHeader ! 58 = CHR 0x60" "badHeader ! 59 = CHR 0x0A"
  by code_simp+

lemma badHeader_inputs:
  "TrimSpace (slice 16 28 badHeader) = ''x''"
  "TrimSpace (slice 48 58 badHeader) = ''y''"
  "toDecimal ''x'' = Inl ErrSyntax"
  "toDecimal ''y'' = Inl ErrSyntax"
  by code_simp+

text \<open>
  Claim C6, as the specification states it, fails on a header with two malformed
  numbers: the loop returns at the first field that does not parse, so the error names one
  of them only. On the header with timestamp \<open>x\<close> and size \<open>y\<close> the error names the
  timestamp when the loop visits the fields in the order of the source text, although the
  size does not parse either, and it names the size when the loop visits them in the
  opposite order.
\<close>

theorem one_malformed_field_is_named:
  "fieldFails badHeader TimestampField \<and> fieldFails badHeader SizeField \<and>
   parseArEntry [TimestampField, OwnerIDField, GroupIDField, SizeField] badHeader =
     Inl (FailedToParseEntry ''Timestamp'' ErrSyntax) \<and>
   parseArEntry [SizeField, GroupIDField, OwnerIDField, TimestampField] badHeader =
     Inl (FailedToParseEntry ''Size'' ErrSyntax) \<and>
   fieldName SizeField \<noteq> ''Timestamp'' \<and> fieldName TimestampField \<noteq> ''Size''"
proof -
  have "fieldFails badHeader TimestampField" "fieldFails badHeader SizeField"
    by (simp_all add: fieldFails_def fieldInput_def badHeader_inputs)
  then show ?thesis
    by (simp add: parseArEntry_def rangeOrder_def badHeader_shape badHeader_inputs)
qed

text \<open>
  Claim C6, amended. For every header of 60 bytes that passes the check of the
  terminator, every order of the loop and each numeric field: the number is read from
  the field trimmed of surrounding white space; a field that is empty after trimming
  does not fail, and decodes to 0 whenever the header decodes; when no field fails,
  the header decodes and every field holds its value. A field that is not empty and
  does not parse makes the decode fail with a format error that names a field that is
  not empty and does not parse: that very field when no other numeric field fails.
\<close>

theorem numeric_fields_decode:
  assumes "length line = 60" and "line ! 58 = CHR 0x60 \<or> line ! 59 = CHR 0x0A"
  shows "(\<exists>pre post. fieldBytes line f = pre @ fieldInput line f @ post \<and>
            whiteSpace pre \<and> whiteSpace post \<and>
            (\<forall>r \<in> set spaceRunes. \<not> prefix r (fieldInput line f) \<and>
                                   \<not> suffix r (fieldInput line f))) \<and>
         (fieldInput line f = [] \<longrightarrow>
            \<not> fieldFails line f \<and>
            (\<forall>e. parseArEntry ord line = Inr e \<longrightarrow> getField f e = 0)) \<and>
         ((\<forall>g. \<not> fieldFails line g) \<longrightarrow>
            (\<exists>e. parseArEntry ord line = Inr e \<and>
                 (\<forall>g. getField g e = fieldValue line g))) \<and>
         (fieldFails line f \<longrightarrow>
            (\<exists>g cause. fieldFails line g \<and>
               toDecimal (fieldInput line g) = Inl cause \<and>
               parseArEntry ord line = Inl (FailedToParseEntry (fieldName g) cause) \<and>
               FormatError (FailedToParseEntry (fieldName g) cause))) \<and>
         (fieldFails line f \<and> (\<forall>g. g \<noteq> f \<longrightarrow> \<not> fieldFails line g) \<longrightarrow>
            (\<exists>cause. parseArEntry ord line = Inl (FailedToParseEntry (fieldName f) cause)))"
proof -
  have trim: "\<exists>pre post. fieldBytes line f = pre @ fieldInput line f @ post \<and>
            whiteSpace pre \<and> whiteSpace post \<and>
            (\<forall>r \<in> set spaceRunes. \<not> prefix r (fieldInput line f) \<and>
                                   \<not> suffix r (fieldInput line f))"
    unfolding fieldInput_def by (rule TrimSpace_spec)
  have fieldvals: "getField g e = fieldValue line g" if "parseArEntry ord line = Inr e" for g e
    using parseArEntry_Inr(4) [OF that] by (cases g) (simp_all add: decoded_def)
  have blank: "fieldInput line f = [] \<longrightarrow>
            \<not> fieldFails line f \<and>
            (\<forall>e. parseArEntry ord line = Inr e \<longrightarrow> getField f e = 0)"
    using fieldvals by (simp add: fieldFails_def fieldValue_def)
  have ok: "(\<forall>g. \<not> fieldFails line g) \<longrightarrow>
            (\<exists>e. parseArEntry ord line = Inr e \<and>
                 (\<forall>g. getField g e = fieldValue line g))"
  proof
    assume "\<forall>g. \<not> fieldFails line g"
    then have "parseArEntry ord line = Inr (decoded line)"
      using assms by (intro parseArEntry_ok) simp_all
    with fieldvals show "\<exists>e. parseArEntry ord line = Inr e \<and>
                 (\<forall>g. getField g e = fieldValue line g)"
      by blast
  qed
  have fails: "\<exists>g cause. fieldFails line g \<and>
               toDecimal (fieldInput line g) = Inl cause \<and>
               parseArEntry ord line = Inl (FailedToParseEntry (fieldName g) cause) \<and>
               FormatError (FailedToParseEntry (fieldName g) cause)"
    if f: "fieldFails line f"
  proof (cases "parseArEntry ord line")
    case (Inr e)
    from parseArEntry_Inr(3) [OF Inr, of f] f show ?thesis by simp
  next
    case (Inl err)
    from parseArEntry_Inl [OF Inl] assms obtain g where
      g: "fieldFails line g"
      and e: "err = FailedToParseEntry (fieldName g) (projl (toDecimal (fieldInput line g)))"
      by auto
    from g have "toDecimal (fieldInput line g) = Inl (projl (toDecimal (fieldInput line g)))"
      by (simp add: fieldFails_def)
    with g e Inl show ?thesis by auto
  qed
  have only: "fieldFails line f \<and> (\<forall>g. g \<noteq> f \<longrightarrow> \<not> fieldFails line g) \<longrightarrow>
            (\<exists>cause. parseArEntry ord line = Inl (FailedToParseEntry (fieldName f) cause))"
  proof
    assume a: "fieldFails line f \<and> (\<forall>g. g \<noteq> f \<longrightarrow> \<not> fieldFails line g)"
    with fails obtain g cause where "fieldFails line g"
      and p: "parseArEntry ord line = Inl (FailedToParseEntry (fieldName g) cause)"
      by blast
    with a have "g = f" by blast
    with p show "\<exists>cause. parseArEntry ord line = Inl (FailedToParseEntry (fieldName f) cause)"
      by blast
  qed
  from trim blank ok fails only show ?thesis by blast
qed

theorem numeric_fields_decode_witness:
  "length blankHeader = 60 \<and> blankHeader ! 58 = CHR 0x60 \<and>
   fieldInput blankHeader SizeField = [] \<and>
   parseArEntry [] blankHeader =
     Inr \<lparr>Name = ''foo'', Timestamp = 0, OwnerID = 0, GroupID = 0,
          FileMode = ''100644'', Size = 0, Data = None\<rparr> \<and>
   getField SizeField \<lparr>Name = ''foo'', Timestamp = 0, OwnerID = 0, GroupID = 0,
          FileMode = ''100644'', Size = 0, Data = None\<rparr> = 0"
proof -
  let ?e = "\<lparr>Name = ''foo'', Timestamp = 0, OwnerID = 0, GroupID = 0,
          FileMode = ''100644'', Size = 0, Data = None\<rparr>"
  have i: "fieldInput blankHeader SizeField = []" by code_simp
  have p: "parseArEntry [] blankHeader = Inr ?e" by (rule blankHeader_decodes)
  have t: "blankHeader ! 58 = CHR 0x60 \<or> blankHeader ! 59 = CHR 0x0A"
    by (simp add: blankHeader_shape)
  from numeric_fields_decode [OF blankHeader_shape(1) t, of SizeField "[]"] i p
  have "getField SizeField ?e = 0" by blast
  with i p blankHeader_shape show ?thesis by simp
qed

section \<open>An advance that fails leaves the cursor alone\<close>

text \<open>
  Claim C10. Whenever \<^verbatim>\<open>Next\<close> returns an error of any kind (the error of the read, the
  end of the archive, a short read or a failure to decode the header), the archive it was
  called on is as it was before the call: in particular its offset is unchanged.
\<close>

theorem Next_error_keeps_offset:
  "Next ord d = (Inl err, d') \<Longrightarrow> d' = d \<and> offset d' = offset d"
  using Next_Inl [of ord d err d'] by simp

theorem Next_error_keeps_offset_witness:
  "Next [] \<lparr>inp = bytes_Reader truncatedArchive, offset = 8\<rparr> =
     (Inl EOF, \<lparr>inp = bytes_Reader truncatedArchive, offset = 8\<rparr>)"
proof -
  let ?d = "\<lparr>inp = bytes_Reader truncatedArchive, offset = 8\<rparr>"
  have "fst (Next [] ?d) = Inl EOF"
    by (simp add: Next_def ReadAt_def bytes_Reader_def truncatedArchive_def arMagic_def Let_def)
  then have "Next [] ?d = (Inl EOF, snd (Next [] ?d))"
    by (simp add: prod_eq_iff)
  from this Next_error_keeps_offset [OF this] show ?thesis by simp
qed

end
